theory Spec2Isabelle
  imports Main "HOL-Library.Word" "HOL-Library.Signed_Division" "HOL-Library.AList"
    "HOL-Library.Multiset"
begin

section \<open>Data model of the pay-per-event relay\<close>

text \<open>
  Go's \<^verbatim>\<open>int64\<close> is a 64-bit word read in two's complement (\<open>sint\<close>): \<open>+\<close> and
  \<open>-\<close> wrap around, \<^verbatim>\<open>/\<close> truncates towards zero.
\<close>

type_synonym int64 = "64 word"

definition go_div :: "int64 \<Rightarrow> int64 \<Rightarrow> int64" where
  \<comment> \<open>Go's \<^verbatim>\<open>a / b\<close> on int64 for a non-zero constant divisor (the source divides by 1000).\<close>
  "go_div a b = word_of_int (sint a sdiv sint b)"

text \<open>
  The two ways the process stops instead of returning: a runtime panic (the only one in
  this program is "index out of range") and \<^verbatim>\<open>log.Fatalf\<close> with its message, which
  exits the process.
\<close>

datatype crash = Panic | Fatal string

text \<open>\<^verbatim>\<open>nostr.Event\<close>, with the fields the program reads or writes.\<close>

record event =
  ID :: string
  PubKey :: string
  CreatedAt :: int64
  Kind :: int
  Tags :: "string list list"
  Content :: string
  Sig :: string

text \<open>The struct \<^verbatim>\<open>Description\<close> of main.go (the JSON of the zap request).\<close>

record Description =
  dPubKey :: string
  dContent :: string
  dID :: string
  dCreatedAt :: int64
  dSig :: string
  dKind :: int
  dTags :: "string list list"

text \<open>\<^verbatim>\<open>nostr.Filter\<close>, with the three fields the program sets.\<close>

record filter =
  Kinds :: "int list"
  FTags :: "(string \<times> string list) list"
  Authors :: "string list"

definition KindZap :: int where "KindZap = 9735"
definition KindTextNote :: int where "KindTextNote = 1"

text \<open>
  The library functions the program calls and whose code is not part of it. They are
  parameters of the model: nothing is assumed about what they return.
  \<^item> \<open>GetPublicKey\<close>: \<^verbatim>\<open>nostr.GetPublicKey\<close> (the program drops its error);
  \<^item> \<open>Unmarshal\<close>: \<^verbatim>\<open>json.Unmarshal\<close> into a \<open>Description\<close>, \<open>Inl\<close> the error;
  \<^item> \<open>Decodepay\<close>: the field \<^verbatim>\<open>MSatoshi\<close> of \<^verbatim>\<open>decodepay.Decodepay\<close>, \<open>Inl\<close> the error.
\<close>

record lib =
  GetPublicKey :: "string \<Rightarrow> string"
  Unmarshal :: "string \<Rightarrow> string + Description"
  Decodepay :: "string \<Rightarrow> string + int64"

text \<open>
  What the outside answers at one moment: the process environment, the upstream relays
  (the events a subscription delivers until end-of-stored-data, each with the relay it
  came from), the local store's count query, the clock, and whether connecting and
  publishing to a relay succeed.
\<close>

record world =
  LookupEnv :: "string \<Rightarrow> string option"
  SubManyEose :: "string list \<Rightarrow> filter list \<Rightarrow> (string \<times> event) list"
  CountEvents :: "filter \<Rightarrow> string + int64"
  Now :: int64
  RelayConnect :: "string \<Rightarrow> bool"
  RelayPublish :: "string \<Rightarrow> bool"

definition relays :: "string list" where
  "relays =
    [''wss://relay.snort.social'', ''wss://nos.lol'', ''wss://nostr.mom'',
     ''wss://nostr.wine'', ''wss://relay.damus.io'', ''wss://relay.nostr.band'',
     ''wss://purplepag.es'', ''wss://relay.nostr.land'', ''wss://relay.primal.net'']"

section \<open>utils.go\<close>

definition GetEnv :: "world \<Rightarrow> string \<Rightarrow> crash + string" where
  "GetEnv w key =
     (case LookupEnv w key of
        None \<Rightarrow> Inl (Fatal (''Environment variable '' @ key @ '' not set''))
      | Some v \<Rightarrow> Inr v)"

text \<open>
  \<^verbatim>\<open>ValueFromTag\<close> returns a pointer and an error; the model returns the pair (the
  string pointed to, the error's text). It reads \<^verbatim>\<open>tag[0]\<close> and \<^verbatim>\<open>tag[1]\<close> with no
  length check, so a tag that is too short is a panic.
\<close>

fun ValueFromTags :: "string list list \<Rightarrow> string \<Rightarrow> crash + (string option \<times> string option)" where
  "ValueFromTags [] key = Inr (None, Some ''tag not found'')"
| "ValueFromTags (tag # tags) key =
     (case tag of
        [] \<Rightarrow> Inl Panic
      | t0 # rest \<Rightarrow>
          if t0 = key then
            (case rest of
               [] \<Rightarrow> Inl Panic
             | t1 # _ \<Rightarrow> Inr (Some t1, None))
          else ValueFromTags tags key)"

definition ValueFromTag :: "event \<Rightarrow> string \<Rightarrow> crash + (string option \<times> string option)" where
  "ValueFromTag ev key = ValueFromTags (Tags ev) key"

section \<open>main.go: aggregation of zap receipts\<close>

text \<open>
  The loop of \<^verbatim>\<open>GetZapRequestFromZapEvent\<close>: the value of the first tag with more than
  one element whose first element is "description", the empty string when there is none.
\<close>

fun descriptionJSON :: "string list list \<Rightarrow> string" where
  "descriptionJSON [] = ''''"
| "descriptionJSON (tag # tags) =
     (if length tag > 1 \<and> tag ! 0 = ''description'' then tag ! 1 else descriptionJSON tags)"

definition GetZapRequestFromZapEvent :: "lib \<Rightarrow> event \<Rightarrow> string + Description" where
  "GetZapRequestFromZapEvent l ev =
     (let d = descriptionJSON (Tags ev) in
      if d = '''' then Inl ''description tag not found''
      else (case Unmarshal l d of
              Inl err \<Rightarrow> Inl (''error parsing description: '' @ err)
            | Inr description \<Rightarrow> Inr description))"

definition zap_filter :: "string \<Rightarrow> filter" where
  "zap_filter botPubkey = \<lparr>Kinds = [KindZap], FTags = [(''p'', [botPubkey])], Authors = []\<rparr>"

text \<open>
  The loop of \<^verbatim>\<open>GetZapEventsFromUser\<close> over the delivered events. The Go map from
  event id to event is an association list with one entry per key;
  \<^verbatim>\<open>events[event.ID] = event.Event\<close> is \<open>AList.update\<close>.
\<close>

fun zap_events_loop ::
  "lib \<Rightarrow> string \<Rightarrow> (string \<times> event) list \<Rightarrow> (string \<times> event) list \<Rightarrow> (string \<times> event) list" where
  "zap_events_loop l pubkey [] events = events"
| "zap_events_loop l pubkey ((relay, ev) # rest) events =
     (case GetZapRequestFromZapEvent l ev of
        Inl err \<Rightarrow> zap_events_loop l pubkey rest events
      | Inr zapRequest \<Rightarrow>
          if dPubKey zapRequest = pubkey
          then zap_events_loop l pubkey rest (AList.update (ID ev) ev events)
          else zap_events_loop l pubkey rest events)"

definition GetZapEventsFromUser :: "lib \<Rightarrow> world \<Rightarrow> string \<Rightarrow> string \<Rightarrow> (string \<times> event) list" where
  "GetZapEventsFromUser l w botPubkey pubkey =
     zap_events_loop l pubkey (SubManyEose w relays [zap_filter botPubkey]) []"

text \<open>
  The loop of \<^verbatim>\<open>GetZapsTotalFromUser\<close> over the map's values, with the running total (\<open>tot\<close>).
  Go visits a map in no fixed order; the model visits the association list in its order,
  and \<open>zaps_total_loop_mset\<close> below shows that the order does not change the result.
\<close>

fun zaps_total_loop :: "lib \<Rightarrow> event list \<Rightarrow> int64 \<Rightarrow> crash + int64" where
  "zaps_total_loop l [] tot = Inr tot"
| "zaps_total_loop l (ev # rest) tot =
     (case ValueFromTag ev ''bolt11'' of
        Inl c \<Rightarrow> Inl c
      | Inr (bolt11, err) \<Rightarrow>
          if err \<noteq> None then zaps_total_loop l rest tot
          else (case bolt11 of
                  None \<Rightarrow> zaps_total_loop l rest tot
                | Some b \<Rightarrow>
                    (case Decodepay l b of
                       Inl derr \<Rightarrow> zaps_total_loop l rest tot
                     | Inr msat \<Rightarrow> zaps_total_loop l rest (tot + msat))))"

definition GetZapsTotalFromUser :: "lib \<Rightarrow> world \<Rightarrow> string \<Rightarrow> string \<Rightarrow> crash + int64" where
  "GetZapsTotalFromUser l w botPubkey pubkey =
     (case zaps_total_loop l (map snd (GetZapEventsFromUser l w botPubkey pubkey)) 0 of
        Inl c \<Rightarrow> Inl c
      | Inr tot \<Rightarrow> Inr (go_div tot 1000))"

section \<open>main.go: the store's count, the balance and the admission hook\<close>

definition GetStoredEventsCountFromUser :: "world \<Rightarrow> string \<Rightarrow> crash + int64" where
  "GetStoredEventsCountFromUser w pubkey =
     (case CountEvents w \<lparr>Kinds = [], FTags = [], Authors = [pubkey]\<rparr> of
        Inl err \<Rightarrow> Inl (Fatal (''Failed to query events: '' @ err))
      | Inr cnt \<Rightarrow> Inr cnt)"

definition GetRemainingUserBalance :: "lib \<Rightarrow> world \<Rightarrow> string \<Rightarrow> string \<Rightarrow> crash + int64" where
  "GetRemainingUserBalance l w botPubkey pubkey =
     (case GetZapsTotalFromUser l w botPubkey pubkey of
        Inl c \<Rightarrow> Inl c
      | Inr userPaidAmount \<Rightarrow>
          (case GetStoredEventsCountFromUser w pubkey of
             Inl c \<Rightarrow> Inl c
           | Inr userNotesCount \<Rightarrow> Inr (userPaidAmount - userNotesCount)))"

text \<open>The function \<^verbatim>\<open>main\<close> appends to \<^verbatim>\<open>relay.RejectEvent\<close>: (reject, msg).\<close>

definition RejectEvent_hook :: "lib \<Rightarrow> world \<Rightarrow> string \<Rightarrow> event \<Rightarrow> crash + (bool \<times> string)" where
  "RejectEvent_hook l w botPubkey ev =
     (case GetZapsTotalFromUser l w botPubkey (PubKey ev) of
        Inl c \<Rightarrow> Inl c
      | Inr userPaidAmount \<Rightarrow>
          (case GetStoredEventsCountFromUser w (PubKey ev) of
             Inl c \<Rightarrow> Inl c
           | Inr userNotesCount \<Rightarrow>
               if userPaidAmount <s userNotesCount + 1
               then Inr (True, ''no sufficient balance; top up'')
               else Inr (False, '''')))"

section \<open>main.go: the command bot\<close>

text \<open>
  \<^verbatim>\<open>regexp.MatchString\<close> for a pattern made of word-boundary assertions and literals
  under the flag \<^verbatim>\<open>i\<close>. Go's regexp follows RE2: \<^verbatim>\<open>\b\<close> is the ASCII word boundary
  (a word character is a letter, a digit or the underscore), and \<^verbatim>\<open>i\<close> matches a letter
  of the pattern against both of its cases. The flag \<^verbatim>\<open>m\<close> only changes \<^verbatim>\<open>^\<close> and \<^verbatim>\<open>$\<close>,
  which the pattern does not use. The content is read byte by byte: every byte of a
  character outside ASCII is no word character and no letter of the pattern.
\<close>

datatype re_item = WordBoundary | Lit char

definition is_word_char :: "char \<Rightarrow> bool" where
  "is_word_char c =
     (let n = (of_char c :: nat) in
      (48 \<le> n \<and> n \<le> 57) \<or> (65 \<le> n \<and> n \<le> 90) \<or> (97 \<le> n \<and> n \<le> 122) \<or> n = 95)"

definition fold_case :: "char \<Rightarrow> char" where
  "fold_case c =
     (let n = (of_char c :: nat) in if 65 \<le> n \<and> n \<le> 90 then char_of (n + 32) else c)"

definition at_word_boundary :: "char option \<Rightarrow> string \<Rightarrow> bool" where
  "at_word_boundary prev s =
     ((case prev of None \<Rightarrow> False | Some p \<Rightarrow> is_word_char p)
      \<noteq> (case s of [] \<Rightarrow> False | x # _ \<Rightarrow> is_word_char x))"

text \<open>Does the pattern match starting here, \<open>prev\<close> being the character just before?\<close>

fun match_here :: "re_item list \<Rightarrow> char option \<Rightarrow> string \<Rightarrow> bool" where
  "match_here [] prev s = True"
| "match_here (WordBoundary # r) prev s = (at_word_boundary prev s \<and> match_here r prev s)"
| "match_here (Lit c # r) prev [] = False"
| "match_here (Lit c # r) prev (x # xs) = (fold_case x = fold_case c \<and> match_here r (Some x) xs)"

fun match_from :: "re_item list \<Rightarrow> char option \<Rightarrow> string \<Rightarrow> bool" where
  "match_from r prev [] = match_here r prev []"
| "match_from r prev (x # xs) = (match_here r prev (x # xs) \<or> match_from r (Some x) xs)"

definition MatchString :: "re_item list \<Rightarrow> string \<Rightarrow> bool" where
  "MatchString r s = match_from r None s"

definition balance_pattern :: "re_item list" where
  \<comment> \<open>\<^verbatim>\<open>(?mi)\bbalance\b\<close>\<close>
  "balance_pattern = WordBoundary # map Lit ''balance'' @ [WordBoundary]"

text \<open>\<^verbatim>\<open>%v\<close> of an int64: the decimal digits, after a minus sign when negative.\<close>

function decimal :: "nat \<Rightarrow> string" where
  "decimal n = (if n < 10 then [char_of (48 + n)] else decimal (n div 10) @ [char_of (48 + n mod 10)])"
  by pat_completeness auto
termination
  by (relation "measure (\<lambda>n. n)") auto

definition FormatInt64 :: "int64 \<Rightarrow> string" where
  "FormatInt64 v = (if sint v < 0 then CHR ''-'' # decimal (nat (- sint v)) else decimal (nat (sint v)))"

definition balance_response :: "int64 \<Rightarrow> string" where
  \<comment> \<open>\<^verbatim>\<open>fmt.Sprintf("Your balance is %v sats.", userBalance)\<close>\<close>
  "balance_response userBalance = ''Your balance is '' @ FormatInt64 userBalance @ '' sats.''"

definition reply_filter :: "string \<Rightarrow> string \<Rightarrow> filter" where
  "reply_filter botPubkey i = \<lparr>Kinds = [KindTextNote], FTags = [(''e'', [i])], Authors = [botPubkey]\<rparr>"

definition BotCommandFulfilled :: "world \<Rightarrow> string \<Rightarrow> string \<Rightarrow> bool" where
  "BotCommandFulfilled w botPubkey i = (SubManyEose w relays [reply_filter botPubkey i] \<noteq> [])"

text \<open>
  \<^verbatim>\<open>event.Sign(key)\<close> is library code that fills in the id and the signature. The model
  keeps the event as the program built it, together with the secret key handed to
  \<^verbatim>\<open>Sign\<close>.
\<close>

datatype signed = Signed (secret: string) (unsigned: event)

record publication =
  reply :: signed
  published_to :: "string list"

text \<open>The loop over the relays: a failed connection or a failed publish skips the relay.\<close>

fun publish_loop :: "world \<Rightarrow> string list \<Rightarrow> string list" where
  "publish_loop w [] = []"
| "publish_loop w (url # urls) =
     (if \<not> RelayConnect w url then publish_loop w urls
      else if \<not> RelayPublish w url then publish_loop w urls
      else url # publish_loop w urls)"

definition PublishCommandResponseEvent :: "world \<Rightarrow> string \<Rightarrow> event \<Rightarrow> string \<Rightarrow> crash + publication" where
  "PublishCommandResponseEvent w botPubkey ev content =
     (let event = \<lparr>ID = '''', PubKey = botPubkey, CreatedAt = Now w, Kind = KindTextNote,
                    Tags = [[''e'', ID ev], [''p'', PubKey ev]], Content = content, Sig = ''''\<rparr>
      in case GetEnv w ''GM_BOT_PRIVATE_KEY'' of
           Inl c \<Rightarrow> Inl c
         | Inr key \<Rightarrow> Inr \<lparr>reply = Signed key event, published_to = publish_loop w relays\<rparr>)"

text \<open>The line of \<^verbatim>\<open>main\<close> that sets the global \<^verbatim>\<open>botPubkey\<close>.\<close>

definition main_botPubkey :: "lib \<Rightarrow> world \<Rightarrow> crash + string" where
  "main_botPubkey l w =
     (case GetEnv w ''BOT_PRIVATE_KEY'' of Inl c \<Rightarrow> Inl c | Inr key \<Rightarrow> Inr (GetPublicKey l key))"

text \<open>
  The body of the loop of \<^verbatim>\<open>HandleBotCommands\<close> for one delivered event: the reply it
  publishes, if any.
\<close>

definition bot_step :: "lib \<Rightarrow> string \<Rightarrow> world \<Rightarrow> event \<Rightarrow> crash + publication option" where
  "bot_step l botPubkey w ev =
     (if \<not> BotCommandFulfilled w botPubkey (ID ev) then
        if MatchString balance_pattern (Content ev) then
          (case GetRemainingUserBalance l w botPubkey (PubKey ev) of
             Inl c \<Rightarrow> Inl c
           | Inr userBalance \<Rightarrow>
               (case PublishCommandResponseEvent w botPubkey ev (balance_response userBalance) of
                  Inl c \<Rightarrow> Inl c
                | Inr p \<Rightarrow> Inr (Some p)))
        else Inr None
      else Inr None)"

text \<open>
  \<^verbatim>\<open>HandleBotCommands\<close> never returns: it consumes a subscription that stays open. The
  model runs it over a finite prefix of the subscription, each delivered event (with its
  relay) paired with the state of the outside when it is handled, and returns the replies
  published so far and the crash that stopped the process, if one did.
\<close>

fun HandleBotCommands ::
  "lib \<Rightarrow> string \<Rightarrow> (world \<times> string \<times> event) list \<Rightarrow> publication list \<times> crash option" where
  "HandleBotCommands l botPubkey [] = ([], None)"
| "HandleBotCommands l botPubkey ((w, relay, ev) # rest) =
     (case bot_step l botPubkey w ev of
        Inl c \<Rightarrow> ([], Some c)
      | Inr None \<Rightarrow> HandleBotCommands l botPubkey rest
      | Inr (Some p) \<Rightarrow>
          (case HandleBotCommands l botPubkey rest of (ps, c) \<Rightarrow> (p # ps, c)))"

section \<open>Concrete inputs\<close>

text \<open>
  A library and an outside world to run the program on. The decoders are tables: one
  description string decodes to a zap request of the payer \<open>alice\<close>, a few invoice strings
  decode to an amount in millisatoshi, and every other string is an error. The world
  delivers the given zap receipts for the zap filter of the bot and the given answer of
  the count query; both environment variables are set, to different keys.
\<close>

definition alice_request :: Description where
  "alice_request = \<lparr>dPubKey = ''alice'', dContent = '''', dID = ''request-1'', dCreatedAt = 0,
     dSig = '''', dKind = 9734, dTags = []\<rparr>"

definition example_lib :: lib where
  "example_lib =
     \<lparr>GetPublicKey = (\<lambda>key. ''pub-'' @ key),
      Unmarshal = (\<lambda>s. if s = ''request of alice'' then Inr alice_request
                        else Inl ''invalid character''),
      Decodepay = (\<lambda>b. case map_of [(''invoice 500'', 500), (''invoice 1000'', 1000),
                                      (''invoice 2000'', 2000), (''invoice 3000'', 3000),
                                      (''invoice 5000'', 5000),
                                      (''invoice 2^62'', 4611686018427387904)] b of
                          None \<Rightarrow> Inl ''invalid bolt11'' | Some msat \<Rightarrow> Inr msat)\<rparr>"

definition receipt :: "string \<Rightarrow> string list list \<Rightarrow> event" where
  "receipt i ts = \<lparr>ID = i, PubKey = ''wallet'', CreatedAt = 0, Kind = KindZap, Tags = ts,
     Content = '''', Sig = ''''\<rparr>"

definition zap :: "string \<Rightarrow> string \<Rightarrow> string \<times> event" where
  "zap i invoice = (''wss://nos.lol'',
     receipt i [[''p'', ''pub-01''], [''description'', ''request of alice''], [''bolt11'', invoice]])"

definition text_note :: "string \<Rightarrow> string \<Rightarrow> string \<Rightarrow> event" where
  "text_note i author text = \<lparr>ID = i, PubKey = author, CreatedAt = 0, Kind = KindTextNote,
     Tags = [[''p'', ''pub-01'']], Content = text, Sig = ''''\<rparr>"

definition example_world :: "(string \<times> event) list \<Rightarrow> (string + int64) \<Rightarrow> world" where
  "example_world zaps cnt =
     \<lparr>LookupEnv = map_of [(''BOT_PRIVATE_KEY'', ''01''), (''GM_BOT_PRIVATE_KEY'', ''02'')],
      SubManyEose = (\<lambda>urls fs. if fs = [zap_filter ''pub-01''] then zaps else []),
      CountEvents = (\<lambda>f. cnt), Now = 0,
      RelayConnect = (\<lambda>url. True), RelayPublish = (\<lambda>url. True)\<rparr>"

text \<open>
  Two more worlds for the command bot: one in which only the listed relays accept a
  connection (and no lookup finds anything), and one in which the lookup for replies to
  the query \<open>q\<close> finds a reply of the bot.
\<close>

definition world_reaching :: "string list \<Rightarrow> world" where
  "world_reaching urls = (example_world [] (Inr 0))\<lparr>RelayConnect := (\<lambda>url. url \<in> set urls)\<rparr>"

definition world_with_reply :: "string \<Rightarrow> world" where
  "world_with_reply q =
     (example_world [] (Inr 0))
       \<lparr>SubManyEose := (\<lambda>urls fs. if fs = [reply_filter ''pub-01'' q]
           then [(''wss://nos.lol'',
                  \<lparr>ID = ''r1'', PubKey = ''pub-01'', CreatedAt = 0, Kind = KindTextNote,
                    Tags = [[''e'', q], [''p'', ''alice'']],
                    Content = ''Your balance is 0 sats.'', Sig = ''sig''\<rparr>)]
           else [])\<rparr>"

section \<open>Notions the claims are stated with\<close>

text \<open>
  \<open>kept\<close>: the receipt passes the test of the loop of \<^verbatim>\<open>GetZapEventsFromUser\<close> (its
  description decodes and names the payer). \<open>receipt_panics\<close>: \<^verbatim>\<open>ValueFromTag\<close> panics on it.
  \<open>receipt_msat\<close>: what one pass of the loop of \<^verbatim>\<open>GetZapsTotalFromUser\<close> adds to the total
  for it (nothing when the invoice tag is missing or the invoice does not decode).
\<close>

definition kept :: "lib \<Rightarrow> string \<Rightarrow> event \<Rightarrow> bool" where
  "kept l pubkey ev =
     (case GetZapRequestFromZapEvent l ev of
        Inl err \<Rightarrow> False
      | Inr zapRequest \<Rightarrow> dPubKey zapRequest = pubkey)"

definition receipt_panics :: "event \<Rightarrow> bool" where
  "receipt_panics ev = isl (ValueFromTag ev ''bolt11'')"

definition receipt_msat :: "lib \<Rightarrow> event \<Rightarrow> int64" where
  "receipt_msat l ev =
     (case ValueFromTag ev ''bolt11'' of
        Inr (Some b, None) \<Rightarrow> (case Decodepay l b of Inl derr \<Rightarrow> 0 | Inr msat \<Rightarrow> msat)
      | _ \<Rightarrow> 0)"

text \<open>
  The reading of the specification in which every receipt is converted to whole units on
  its own and the quotients are added.
\<close>

definition per_receipt_credit :: "lib \<Rightarrow> event list \<Rightarrow> int64" where
  "per_receipt_credit l es = sum_list (map (\<lambda>ev. go_div (receipt_msat l ev) 1000) es)"

text \<open>
  The specification's words for the command pattern: the content holds the word "balance",
  in any mix of cases, with no word character right before it and none right after it.
\<close>

definition whole_word_balance :: "string \<Rightarrow> bool" where
  "whole_word_balance s =
     (\<exists>pre w post. s = pre @ w @ post \<and> map fold_case w = ''balance''
        \<and> (pre = [] \<or> \<not> is_word_char (last pre))
        \<and> (post = [] \<or> \<not> is_word_char (hd post)))"

text \<open>
  A published reply refers to the query \<open>q\<close> when it carries the tag \<open>["e", q]\<close>;
  \<open>replies_to q\<close> are the replies referring to \<open>q\<close> that reached at least one relay.
  \<open>upstream_reflects\<close> is the assumption on the outside under which the bot answers once:
  whenever a query is delivered after a reply to it reached a relay (\<open>answered\<close> lists these
  queries), the lookup of \<^verbatim>\<open>BotCommandFulfilled\<close> finds a reply.
\<close>

definition refers_to :: "string \<Rightarrow> publication \<Rightarrow> bool" where
  "refers_to q p = ([''e'', q] \<in> set (Tags (unsigned (reply p))))"

definition replies_to :: "string \<Rightarrow> publication list \<Rightarrow> publication list" where
  "replies_to q ps = filter (\<lambda>p. refers_to q p \<and> published_to p \<noteq> []) ps"

fun upstream_reflects :: "lib \<Rightarrow> string \<Rightarrow> string list \<Rightarrow> (world \<times> string \<times> event) list \<Rightarrow> bool" where
  "upstream_reflects l b answered [] = True"
| "upstream_reflects l b answered ((w, relay, ev) # rest) =
     ((ID ev \<in> set answered \<longrightarrow> BotCommandFulfilled w b (ID ev))
      \<and> upstream_reflects l b
          (case bot_step l b w ev of
             Inr (Some p) \<Rightarrow> if published_to p \<noteq> [] then ID ev # answered else answered
           | _ \<Rightarrow> answered)
          rest)"

text \<open>The identity a reply is signed with: the public key of the secret key handed to \<^verbatim>\<open>Sign\<close>.\<close>

definition signer :: "lib \<Rightarrow> signed \<Rightarrow> string" where
  "signer l s = GetPublicKey l (secret s)"

section \<open>Auxiliary facts\<close>

lemmas example_defs =
  example_world_def example_lib_def receipt_def alice_request_def text_note_def zap_def

lemmas total_defs =
  GetZapsTotalFromUser_def GetZapEventsFromUser_def GetZapRequestFromZapEvent_def
  ValueFromTag_def go_div_def signed_divide_int_def

lemmas run_defs = total_defs example_defs receipt_panics_def receipt_msat_def per_receipt_credit_def

lemmas bot_defs = bot_step_def BotCommandFulfilled_def reply_filter_def zap_filter_def
  KindTextNote_def KindZap_def PublishCommandResponseEvent_def GetEnv_def relays_def
  GetRemainingUserBalance_def GetStoredEventsCountFromUser_def

lemmas reply_defs = refers_to_def replies_to_def world_reaching_def world_with_reply_def
  balance_response_def FormatInt64_def

subsection \<open>The loops of the aggregation\<close>

lemma ValueFromTags_Inl: "ValueFromTags ts key = Inl c \<Longrightarrow> c = Panic"
  by (induction ts) (auto split: list.splits if_splits)

lemma ValueFromTags_Inr:
  "ValueFromTags ts key = Inr (v, e) \<Longrightarrow>
     (v = None \<and> e = Some ''tag not found'') \<or> (v \<noteq> None \<and> e = None)"
  by (induction ts) (auto split: list.splits if_splits)

lemma zaps_total_loop_eq:
  "zaps_total_loop l es tot =
     (if \<exists>e \<in> set es. receipt_panics e then Inl Panic
      else Inr (tot + sum_list (map (receipt_msat l) es)))"
proof (induction es arbitrary: tot)
  case Nil
  show ?case by simp
next
  case (Cons ev rest)
  show ?case
  proof (cases "ValueFromTag ev ''bolt11''")
    case (Inl c)
    then have "c = Panic"
      by (simp add: ValueFromTag_def ValueFromTags_Inl)
    with Inl show ?thesis
      by (simp add: receipt_panics_def)
  next
    case (Inr r)
    obtain v e where r: "r = (v, e)"
      by (cases r)
    from Inr r ValueFromTags_Inr [of "Tags ev" "''bolt11''" v e]
    have ve: "(v = None \<and> e = Some ''tag not found'') \<or> (v \<noteq> None \<and> e = None)"
      by (simp add: ValueFromTag_def)
    have step: "zaps_total_loop l (ev # rest) tot = zaps_total_loop l rest (tot + receipt_msat l ev)"
      using Inr r ve by (auto simp: receipt_msat_def split: sum.splits)
    have "\<not> receipt_panics ev"
      using Inr by (simp add: receipt_panics_def)
    then show ?thesis
      unfolding step Cons.IH by (simp add: add.assoc)
  qed
qed

lemma zaps_total_loop_mset:
  assumes "mset es = mset es'"
  shows "zaps_total_loop l es tot = zaps_total_loop l es' tot"
proof -
  have "set es = set es'"
    using assms by (rule mset_eq_setD)
  moreover have "sum_list (map (receipt_msat l) es) = sum_list (map (receipt_msat l) es')"
  proof -
    have "mset (map (receipt_msat l) es) = mset (map (receipt_msat l) es')"
      using assms by simp
    then show ?thesis
      by (metis sum_mset_sum_list)
  qed
  ultimately show ?thesis
    by (simp add: zaps_total_loop_eq)
qed

lemma GetZapsTotalFromUser_eq:
  "GetZapsTotalFromUser l w b p =
     (if \<exists>e \<in> set (map snd (GetZapEventsFromUser l w b p)). receipt_panics e then Inl Panic
      else Inr (go_div (sum_list (map (receipt_msat l) (map snd (GetZapEventsFromUser l w b p)))) 1000))"
  unfolding GetZapsTotalFromUser_def zaps_total_loop_eq by simp

lemma update_fresh: "k \<notin> fst ` set al \<Longrightarrow> AList.update k v al = al @ [(k, v)]"
  by (induction al) auto






lemma zap_events_loop_append:
  "zap_events_loop l p (xs @ ys) acc = zap_events_loop l p ys (zap_events_loop l p xs acc)"
  by (induction xs arbitrary: acc) (auto split: sum.splits)

lemma GetZapEventsFromUser_new_receipt:
  assumes "SubManyEose w' relays [zap_filter b] = SubManyEose w relays [zap_filter b] @ [(relay, r)]"
    and "kept l p r"
    and "ID r \<notin> fst ` set (GetZapEventsFromUser l w b p)"
  shows "GetZapEventsFromUser l w' b p = GetZapEventsFromUser l w b p @ [(ID r, r)]"
proof -
  have "zap_events_loop l p [(relay, r)] acc = AList.update (ID r) r acc" for acc
    using assms(2) by (auto simp: kept_def split: sum.splits)
  then show ?thesis
    using assms(3) by (simp add: GetZapEventsFromUser_def assms(1) zap_events_loop_append update_fresh)
qed

subsection \<open>int64 arithmetic\<close>

lemma sdiv_1000_bounds:
  fixes a :: int
  shows "0 \<le> a \<Longrightarrow> a sdiv 1000 = a div 1000"
    and "a < 0 \<Longrightarrow> a sdiv 1000 = - ((- a) div 1000)"
  by (simp_all add: signed_divide_int_def sgn_if)

lemma div_1000_le: "0 \<le> (a::int) \<Longrightarrow> a div 1000 \<le> a"
  by (cases "a = 0") (simp_all add: int_div_le_self)

lemma sint_go_div_1000: "sint (go_div t 1000) = sint t sdiv 1000"
proof -
  have b: "- (2 ^ 63) \<le> sint t" "sint t < 2 ^ 63"
    using sint_ge [of t] sint_lt [of t] by simp_all
  have "- (2 ^ 63) \<le> sint t sdiv 1000 \<and> sint t sdiv 1000 < 2 ^ 63"
  proof (cases "0 \<le> sint t")
    case True
    have "0 \<le> sint t div 1000" "sint t div 1000 \<le> sint t"
      using True div_1000_le by simp_all
    with b show ?thesis
      unfolding sdiv_1000_bounds(1) [OF True] by linarith
  next
    case False
    then have neg: "sint t < 0" by simp
    have "0 \<le> (- sint t) div 1000" "(- sint t) div 1000 \<le> - sint t"
      using neg div_1000_le [of "- sint t"] by simp_all
    with b show ?thesis
      unfolding sdiv_1000_bounds(2) [OF neg] by linarith
  qed
  then show ?thesis
    by (simp add: go_div_def sint_sbintrunc' signed_take_bit_int_eq_self)
qed

lemma sint_sum_list_nonneg:
  fixes f :: "'a \<Rightarrow> int64"
  assumes "\<forall>x \<in> set xs. 0 \<le> sint (f x)"
    and "(\<Sum>x\<leftarrow>xs. sint (f x)) < 2 ^ 63"
  shows "sint (sum_list (map f xs)) = (\<Sum>x\<leftarrow>xs. sint (f x))"
  using assms
proof (induction xs)
  case Nil
  show ?case by simp
next
  case (Cons x xs)
  have nn: "0 \<le> (\<Sum>x\<leftarrow>xs. sint (f x))"
    using Cons.prems(1) by (auto intro!: sum_list_nonneg)
  have "sint (sum_list (map f xs)) = (\<Sum>x\<leftarrow>xs. sint (f x))"
    using Cons.prems nn by (intro Cons.IH) auto
  then show ?case
    using Cons.prems nn
    by (simp add: sint_word_ariths signed_take_bit_int_eq_self)
qed

lemma sum_list_all_zero:
  fixes f :: "'a \<Rightarrow> int64"
  shows "\<forall>x \<in> set xs. f x = 0 \<Longrightarrow> sum_list (map f xs) = 0"
  by (induction xs) simp_all

lemma go_div_small: "0 \<le> sint m \<Longrightarrow> sint m < 1000 \<Longrightarrow> go_div m 1000 = 0"
  by (simp add: go_div_def sdiv_1000_bounds(1))

lemma go_div_add_3000:
  assumes "0 \<le> sint S" and "sint S < 2 ^ 63 - 3000"
  shows "go_div (S + 3000) 1000 = go_div S 1000 + 3"
proof -
  have s: "sint (S + 3000) = sint S + 3000"
    using assms by (simp add: sint_word_ariths signed_take_bit_int_eq_self)
  have d: "(sint S + 3000) div 1000 = sint S div 1000 + 3"
    by simp
  have "go_div (S + 3000) 1000 = word_of_int ((sint S + 3000) div 1000)"
    using assms by (simp only: go_div_def s) (simp add: sdiv_1000_bounds(1))
  also have "\<dots> = word_of_int (sint S div 1000) + 3"
    by (simp only: d) simp
  also have "\<dots> = go_div S 1000 + 3"
    using assms by (simp add: go_div_def sdiv_1000_bounds(1))
  finally show ?thesis .
qed

lemma credit_lower_bound:
  assumes "GetZapsTotalFromUser l w b p = Inr C"
  shows "- (2 ^ 62) \<le> sint C"
proof -
  from assms obtain t where C: "C = go_div t 1000"
    by (auto simp: GetZapsTotalFromUser_def split: sum.splits)
  show ?thesis
  proof (cases "0 \<le> sint t")
    case True
    then have "0 \<le> sint t div 1000"
      by simp
    with True show ?thesis
      by (simp add: C sint_go_div_1000 sdiv_1000_bounds(1))
  next
    case False
    then have neg: "sint t < 0"
      by simp
    have "- sint t \<le> 2 ^ 63"
      using sint_ge [of t] by simp
    then have "(- sint t) div 1000 \<le> 2 ^ 63 div 1000"
      by (rule zdiv_mono1) simp
    then have "(- sint t) div 1000 \<le> 2 ^ 62"
      by simp
    then show ?thesis
      by (simp add: C sint_go_div_1000 sdiv_1000_bounds(2) [OF neg])
  qed
qed

subsection \<open>The command pattern\<close>

lemma match_from_iff:
  "match_from r prev s \<longleftrightarrow>
     (\<exists>pre post. s = pre @ post \<and> match_here r (if pre = [] then prev else Some (last pre)) post)"
proof (induction s arbitrary: prev)
  case Nil
  show ?case by simp
next
  case (Cons x xs)
  show ?case (is "?L \<longleftrightarrow> ?R")
  proof
    assume ?L
    then consider "match_here r prev (x # xs)" | "match_from r (Some x) xs"
      by auto
    then show ?R
    proof cases
      case 1
      then have "x # xs = [] @ (x # xs) \<and> match_here r (if [] = [] then prev else Some (last [])) (x # xs)"
        by simp
      then show ?thesis by blast
    next
      case 2
      then obtain pre post where p: "xs = pre @ post"
        "match_here r (if pre = [] then Some x else Some (last pre)) post"
        using Cons.IH by blast
      then have "x # xs = (x # pre) @ post
          \<and> match_here r (if x # pre = [] then prev else Some (last (x # pre))) post"
        by auto
      then show ?thesis by blast
    qed
  next
    assume ?R
    then obtain pre post where p: "x # xs = pre @ post"
      "match_here r (if pre = [] then prev else Some (last pre)) post"
      by blast
    show ?L
    proof (cases pre)
      case Nil
      with p have "match_here r prev (x # xs)"
        by simp
      then show ?thesis by simp
    next
      case (Cons y pre')
      with p have "xs = pre' @ post" "y = x"
        by simp_all
      moreover have "match_here r (if pre' = [] then Some x else Some (last pre')) post"
        using p(2) Cons \<open>y = x\<close> by (auto split: if_splits)
      ultimately have "match_from r (Some x) xs"
        using Cons.IH by blast
      then show ?thesis by simp
    qed
  qed
qed

lemma match_here_lits:
  "match_here (map Lit cs @ r) prev s \<longleftrightarrow>
     (\<exists>w rest. s = w @ rest \<and> map fold_case w = map fold_case cs
        \<and> match_here r (if w = [] then prev else Some (last w)) rest)"
proof (induction cs arbitrary: prev s)
  case Nil
  show ?case by simp
next
  case (Cons c cs)
  show ?case (is "?L \<longleftrightarrow> ?R")
  proof (cases s)
    case Nil
    then show ?thesis by simp
  next
    case (Cons x xs)
    show ?thesis
    proof
      assume ?L
      then have fc: "fold_case x = fold_case c" and "match_here (map Lit cs @ r) (Some x) xs"
        using Cons by simp_all
      then obtain w rest where w: "xs = w @ rest" "map fold_case w = map fold_case cs"
        "match_here r (if w = [] then Some x else Some (last w)) rest"
        using Cons.IH by blast
      then have "s = (x # w) @ rest \<and> map fold_case (x # w) = map fold_case (c # cs)
          \<and> match_here r (if x # w = [] then prev else Some (last (x # w))) rest"
        using Cons fc by auto
      then show ?R by blast
    next
      assume ?R
      then obtain w rest where w: "s = w @ rest" "map fold_case w = map fold_case (c # cs)"
        "match_here r (if w = [] then prev else Some (last w)) rest"
        by blast
      from w(2) obtain y w' where w': "w = y # w'" "fold_case y = fold_case c"
        "map fold_case w' = map fold_case cs"
        by (cases w) auto
      with w(1) Cons have xs: "x = y" "xs = w' @ rest"
        by simp_all
      have "match_here r (if w' = [] then Some x else Some (last w')) rest"
        using w(3) w' xs by (auto split: if_splits)
      with xs w' have "match_here (map Lit cs @ r) (Some x) xs"
        using Cons.IH by blast
      with w' xs Cons show ?L
        by simp
    qed
  qed
qed

lemma is_word_char_fold_case: "is_word_char (fold_case c) = is_word_char c"
  by (auto simp: is_word_char_def fold_case_def Let_def)

lemma fold_case_balance: "map fold_case ''balance'' = ''balance''"
  by (simp add: fold_case_def)

lemma folded_word_ends:
  assumes "map fold_case w = map fold_case cs" and "cs \<noteq> []"
  shows "w \<noteq> []" and "is_word_char (hd w) = is_word_char (hd cs)"
    and "is_word_char (last w) = is_word_char (last cs)"
proof -
  show ne: "w \<noteq> []"
    using assms by (cases w) simp_all
  have "hd (map fold_case w) = hd (map fold_case cs)" "last (map fold_case w) = last (map fold_case cs)"
    using assms(1) by simp_all
  then have "fold_case (hd w) = fold_case (hd cs)" "fold_case (last w) = fold_case (last cs)"
    using ne assms(2) by (simp_all add: hd_map last_map)
  then have "is_word_char (fold_case (hd w)) = is_word_char (fold_case (hd cs))"
    "is_word_char (fold_case (last w)) = is_word_char (fold_case (last cs))"
    by simp_all
  then show "is_word_char (hd w) = is_word_char (hd cs)"
    and "is_word_char (last w) = is_word_char (last cs)"
    by (simp_all only: is_word_char_fold_case)
qed

lemma boundary_before_word:
  "w \<noteq> [] \<Longrightarrow> is_word_char (hd w) \<Longrightarrow>
     at_word_boundary prev (w @ rest) \<longleftrightarrow> (prev = None \<or> \<not> is_word_char (the prev))"
  by (cases w; cases prev) (simp_all add: at_word_boundary_def)

lemma boundary_after_word:
  "is_word_char c \<Longrightarrow>
     at_word_boundary (Some c) rest \<longleftrightarrow> (rest = [] \<or> \<not> is_word_char (hd rest))"
  by (cases rest) (simp_all add: at_word_boundary_def)

lemma match_here_word:
  assumes cs: "cs \<noteq> []" "is_word_char (hd cs)" "is_word_char (last cs)"
  shows "match_here (WordBoundary # map Lit cs @ [WordBoundary]) prev s \<longleftrightarrow>
     (\<exists>w rest. s = w @ rest \<and> map fold_case w = map fold_case cs
        \<and> (prev = None \<or> \<not> is_word_char (the prev))
        \<and> (rest = [] \<or> \<not> is_word_char (hd rest)))"
  (is "?L \<longleftrightarrow> ?R")
proof -
  have 2: "match_here [WordBoundary] p t = at_word_boundary p t" for p t
    by simp
  have 3: "?L \<longleftrightarrow> at_word_boundary prev s
      \<and> (\<exists>w rest. s = w @ rest \<and> map fold_case w = map fold_case cs
            \<and> at_word_boundary (if w = [] then prev else Some (last w)) rest)"
    by (simp only: match_here.simps match_here_lits simp_thms)
  show ?thesis
  proof
    assume ?L
    then have a: "at_word_boundary prev s" and "\<exists>w rest. s = w @ rest \<and> map fold_case w = map fold_case cs
            \<and> at_word_boundary (if w = [] then prev else Some (last w)) rest"
      unfolding 3 by blast+
    then obtain w rest where w: "s = w @ rest" "map fold_case w = map fold_case cs"
      "at_word_boundary (if w = [] then prev else Some (last w)) rest"
      by blast
    note e = folded_word_ends [OF w(2) cs(1)]
    have "prev = None \<or> \<not> is_word_char (the prev)"
      using a e cs unfolding w(1) by (simp add: boundary_before_word)
    moreover have "rest = [] \<or> \<not> is_word_char (hd rest)"
      using w(3) e cs by (simp add: boundary_after_word)
    ultimately show ?R
      using w(1,2) by blast
  next
    assume ?R
    then obtain w rest where w: "s = w @ rest" "map fold_case w = map fold_case cs"
      "prev = None \<or> \<not> is_word_char (the prev)" "rest = [] \<or> \<not> is_word_char (hd rest)"
      by blast
    note e = folded_word_ends [OF w(2) cs(1)]
    have "at_word_boundary prev s"
      using w(3) e cs unfolding w(1) by (simp add: boundary_before_word)
    moreover have "at_word_boundary (if w = [] then prev else Some (last w)) rest"
      using w(4) e cs by (simp add: boundary_after_word)
    ultimately show ?L
      unfolding 3 using w(1,2) by blast
  qed
qed

lemma MatchString_word:
  assumes cs: "cs \<noteq> []" "is_word_char (hd cs)" "is_word_char (last cs)"
  shows "MatchString (WordBoundary # map Lit cs @ [WordBoundary]) content \<longleftrightarrow>
     (\<exists>pre w post. content = pre @ w @ post \<and> map fold_case w = map fold_case cs
        \<and> (pre = [] \<or> \<not> is_word_char (last pre))
        \<and> (post = [] \<or> \<not> is_word_char (hd post)))"
  (is "?L \<longleftrightarrow> ?R")
proof
  let ?r = "WordBoundary # map Lit cs @ [WordBoundary]"
  assume ?L
  then obtain pre post where p: "content = pre @ post"
    "match_here ?r (if pre = [] then None else Some (last pre)) post"
    unfolding MatchString_def match_from_iff by blast
  from p(2) obtain w rest where w: "post = w @ rest" "map fold_case w = map fold_case cs"
    "(if pre = [] then None else Some (last pre)) = None
       \<or> \<not> is_word_char (the (if pre = [] then None else Some (last pre)))"
    "rest = [] \<or> \<not> is_word_char (hd rest)"
    unfolding match_here_word [OF cs] by blast
  from w(3) have "pre = [] \<or> \<not> is_word_char (last pre)"
    by (auto split: if_splits)
  with p(1) w show ?R
    by blast
next
  let ?r = "WordBoundary # map Lit cs @ [WordBoundary]"
  assume ?R
  then obtain pre w post where w: "content = pre @ w @ post" "map fold_case w = map fold_case cs"
    "pre = [] \<or> \<not> is_word_char (last pre)" "post = [] \<or> \<not> is_word_char (hd post)"
    by blast
  from w(3) have "(if pre = [] then None else Some (last pre)) = None
       \<or> \<not> is_word_char (the (if pre = [] then None else Some (last pre)))"
    by auto
  with w(2,4) have "match_here ?r (if pre = [] then None else Some (last pre)) (w @ post)"
    unfolding match_here_word [OF cs] by blast
  with w(1) show ?L
    unfolding MatchString_def match_from_iff by blast
qed

subsection \<open>The command bot\<close>

lemma bot_step_fulfilled: "BotCommandFulfilled w b (ID ev) \<Longrightarrow> bot_step l b w ev = Inr None"
  by (simp add: bot_step_def)

lemma bot_step_Some:
  assumes "bot_step l b w ev = Inr (Some p)"
  shows "\<not> BotCommandFulfilled w b (ID ev)"
    and "MatchString balance_pattern (Content ev)"
    and "Tags (unsigned (reply p)) = [[''e'', ID ev], [''p'', PubKey ev]]"
    and "PubKey (unsigned (reply p)) = b"
  using assms
  by (auto simp: bot_step_def PublishCommandResponseEvent_def Let_def split: if_splits sum.splits)

lemma refers_to_reply:
  assumes "bot_step l b w ev = Inr (Some p)"
  shows "refers_to q p \<longleftrightarrow> q = ID ev"
  unfolding refers_to_def bot_step_Some(3) [OF assms] by auto

lemma replies_bounded:
  assumes "upstream_reflects l b answered steps"
  shows "length (replies_to q (fst (HandleBotCommands l b steps))) \<le> (if q \<in> set answered then 0 else 1)"
  using assms
proof (induction steps arbitrary: answered)
  case Nil
  show ?case by (simp add: replies_to_def)
next
  case (Cons step steps)
  obtain w relay ev where step: "step = (w, relay, ev)"
    by (cases step)
  show ?case
  proof (cases "bot_step l b w ev")
    case (Inl c)
    then show ?thesis
      by (simp add: step replies_to_def)
  next
    case (Inr r)
    show ?thesis
    proof (cases r)
      case None
      with Inr Cons.prems have "upstream_reflects l b answered steps"
        by (simp add: step)
      from Cons.IH [OF this] Inr None show ?thesis
        by (simp add: step)
    next
      case (Some p)
      let ?answered = "if published_to p \<noteq> [] then ID ev # answered else answered"
      have s: "bot_step l b w ev = Inr (Some p)"
        using Inr Some by simp
      have fresh: "ID ev \<notin> set answered"
        using Cons.prems bot_step_Some(1) [OF s] by (auto simp: step)
      have "upstream_reflects l b ?answered steps"
        using Cons.prems s by (simp add: step)
      from Cons.IH [OF this]
      have ih: "length (replies_to q (fst (HandleBotCommands l b steps)))
                  \<le> (if q \<in> set ?answered then 0 else 1)" .
      have out: "fst (HandleBotCommands l b (step # steps)) = p # fst (HandleBotCommands l b steps)"
        using s by (simp add: step split: prod.splits)
      show ?thesis
      proof (cases "q = ID ev \<and> published_to p \<noteq> []")
        case True
        with ih have "length (replies_to q (fst (HandleBotCommands l b steps))) = 0"
          by simp
        with True fresh show ?thesis
          unfolding out by (simp add: replies_to_def)
      next
        case False
        then have "\<not> (refers_to q p \<and> published_to p \<noteq> [])"
          by (simp add: refers_to_reply [OF s])
        then have "replies_to q (p # fst (HandleBotCommands l b steps))
                 = replies_to q (fst (HandleBotCommands l b steps))"
          by (simp add: replies_to_def)
        moreover have "(if q \<in> set ?answered then 0 else 1) \<le> (if q \<in> set answered then 0 else (1::nat))"
          using False by auto
        ultimately show ?thesis
          unfolding out using ih by simp
      qed
    qed
  qed
qed

section \<open>The claims\<close>

text \<open>
  C1. Let \<open>C\<close> be the credit \<^verbatim>\<open>GetZapsTotalFromUser\<close> returns for the author of the
  candidate event and \<open>U\<close> the count \<^verbatim>\<open>GetStoredEventsCountFromUser\<close> returns. The
  admission hook accepts (returns \<open>(False, "")\<close>) if and only if \<open>C \<ge> U + 1\<close> in int64, and
  otherwise rejects with the reason "no sufficient balance; top up". The int64 comparison
  is the comparison of the integers for every count below \<open>2^63 - 1\<close>, where \<open>U + 1\<close> does
  not wrap around.
\<close>

theorem admission_iff_credit_covers_usage:
  assumes "GetZapsTotalFromUser l w botPubkey (PubKey ev) = Inr C"
    and "GetStoredEventsCountFromUser w (PubKey ev) = Inr U"
  shows "RejectEvent_hook l w botPubkey ev =
           (if U + 1 \<le>s C then Inr (False, '''')
            else Inr (True, ''no sufficient balance; top up''))
       \<and> (sint U < 2 ^ 63 - 1 \<longrightarrow> (U + 1 \<le>s C \<longleftrightarrow> sint U + 1 \<le> sint C))"
proof -
  have "RejectEvent_hook l w botPubkey ev =
           (if U + 1 \<le>s C then Inr (False, '''')
            else Inr (True, ''no sufficient balance; top up''))"
    using assms by (simp add: RejectEvent_hook_def word_sless_alt word_sle_eq not_le)
  moreover have "U + 1 \<le>s C \<longleftrightarrow> sint U + 1 \<le> sint C" if "sint U < 2 ^ 63 - 1"
  proof -
    have "sint (U + 1) = sint U + 1"
      using that sint_ge [of U]
      by (simp add: sint_word_ariths signed_take_bit_int_eq_self)
    then show ?thesis
      by (simp add: word_sle_eq)
  qed
  ultimately show ?thesis
    by blast
qed

text \<open>Scenario B of the specification: credit 3 and usage 3, the hook rejects.\<close>

theorem admission_iff_credit_covers_usage_witness:
  "GetZapsTotalFromUser example_lib (example_world [zap ''z1'' ''invoice 3000''] (Inr 3)) ''pub-01''
       (PubKey (text_note ''n1'' ''alice'' ''hello'')) = Inr 3
   \<and> GetStoredEventsCountFromUser (example_world [zap ''z1'' ''invoice 3000''] (Inr 3))
       (PubKey (text_note ''n1'' ''alice'' ''hello'')) = Inr 3
   \<and> sint (3 :: int64) < 2 ^ 63 - 1
   \<and> \<not> sint (3 :: int64) + 1 \<le> sint (3 :: int64)
   \<and> RejectEvent_hook example_lib (example_world [zap ''z1'' ''invoice 3000''] (Inr 3)) ''pub-01''
       (text_note ''n1'' ''alice'' ''hello'') = Inr (True, ''no sufficient balance; top up'')"
proof -
  let ?w = "example_world [zap ''z1'' ''invoice 3000''] (Inr 3)"
  let ?ev = "text_note ''n1'' ''alice'' ''hello''"
  have c: "GetZapsTotalFromUser example_lib ?w ''pub-01'' (PubKey ?ev) = Inr 3"
    by (simp add: total_defs example_defs)
  have u: "GetStoredEventsCountFromUser ?w (PubKey ?ev) = Inr 3"
    by (simp add: GetStoredEventsCountFromUser_def example_defs)
  have b: "sint (3 :: int64) < 2 ^ 63 - 1"
    by simp
  have n: "\<not> sint (3 :: int64) + 1 \<le> sint (3 :: int64)"
    by simp
  from admission_iff_credit_covers_usage [OF c u] b n
  have "RejectEvent_hook example_lib ?w ''pub-01'' ?ev = Inr (True, ''no sufficient balance; top up'')"
    by (simp only: simp_thms if_False)
  with c u b n show ?thesis
    by (simp only: simp_thms)
qed

text \<open>
  C2, as amended. The credit is one truncating division of the int64 sum \<open>S\<close> of the
  decoded amounts of the payer's receipts, not the sum of one quotient per receipt: as
  long as no receipt makes \<^verbatim>\<open>ValueFromTag\<close> panic, \<^verbatim>\<open>GetZapsTotalFromUser\<close> returns \<open>S / 1000\<close>.
  So the credit is 0 when \<open>S\<close> is from 0 to 999 (a receipt below 1000 millisatoshi gives no
  credit on its own, but it counts in the sum), and one more receipt, with a new id and an
  invoice of exactly 3000 millisatoshi, raises the credit by exactly 3 when \<open>S\<close> is not
  negative and the sum stays in int64.
\<close>

theorem credit_is_truncated_sum:
  assumes "\<forall>e \<in> set (map snd (GetZapEventsFromUser l w b p)). \<not> receipt_panics e"
    and "S = sum_list (map (receipt_msat l) (map snd (GetZapEventsFromUser l w b p)))"
  shows "GetZapsTotalFromUser l w b p = Inr (go_div S 1000)
       \<and> (0 \<le> sint S \<and> sint S < 1000 \<longrightarrow> GetZapsTotalFromUser l w b p = Inr 0)
       \<and> (\<forall>w' relay r.
             SubManyEose w' relays [zap_filter b] = SubManyEose w relays [zap_filter b] @ [(relay, r)]
             \<and> kept l p r \<and> ID r \<notin> fst ` set (GetZapEventsFromUser l w b p)
             \<and> receipt_msat l r = 3000 \<and> 0 \<le> sint S \<and> sint S < 2 ^ 63 - 3000
             \<longrightarrow> GetZapsTotalFromUser l w' b p = Inr (go_div S 1000 + 3))"
proof -
  have t: "GetZapsTotalFromUser l w b p = Inr (go_div S 1000)"
    using assms by (simp add: GetZapsTotalFromUser_eq)
  have small: "GetZapsTotalFromUser l w b p = Inr 0" if "0 \<le> sint S" "sint S < 1000"
    using that t by (simp add: go_div_small)
  have more: "GetZapsTotalFromUser l w' b p = Inr (go_div S 1000 + 3)"
    if s: "SubManyEose w' relays [zap_filter b] = SubManyEose w relays [zap_filter b] @ [(relay, r)]"
      and k: "kept l p r" and f: "ID r \<notin> fst ` set (GetZapEventsFromUser l w b p)"
      and m: "receipt_msat l r = 3000" and b: "0 \<le> sint S" "sint S < 2 ^ 63 - 3000"
    for w' relay r
  proof -
    have e: "GetZapEventsFromUser l w' b p = GetZapEventsFromUser l w b p @ [(ID r, r)]"
      using s k f by (rule GetZapEventsFromUser_new_receipt)
    have "\<not> receipt_panics r"
      using m by (auto simp: receipt_msat_def receipt_panics_def split: sum.splits)
    then have "GetZapsTotalFromUser l w' b p = Inr (go_div (S + 3000) 1000)"
      using assms by (simp add: GetZapsTotalFromUser_eq e m)
    then show ?thesis
      using b by (simp add: go_div_add_3000)
  qed
  from t small more show ?thesis
    by blast
qed

text \<open>
  One receipt of 500 millisatoshi: credit 0. With a second receipt, of 3000 millisatoshi:
  credit 3.
\<close>

theorem credit_is_truncated_sum_witness:
  "GetZapsTotalFromUser example_lib (example_world [zap ''z1'' ''invoice 500''] (Inr 0))
      ''pub-01'' ''alice'' = Inr 0
   \<and> GetZapsTotalFromUser example_lib
        (example_world [zap ''z1'' ''invoice 500'', zap ''z2'' ''invoice 3000''] (Inr 0))
        ''pub-01'' ''alice'' = Inr 3"
proof -
  let ?w = "example_world [zap ''z1'' ''invoice 500''] (Inr 0)"
  let ?w' = "example_world [zap ''z1'' ''invoice 500'', zap ''z2'' ''invoice 3000''] (Inr 0)"
  let ?r = "snd (zap ''z2'' ''invoice 3000'')"
  have h: "\<forall>e \<in> set (map snd (GetZapEventsFromUser example_lib ?w ''pub-01'' ''alice'')).
             \<not> receipt_panics e"
    by (simp add: run_defs)
  have s: "500 = sum_list (map (receipt_msat example_lib)
             (map snd (GetZapEventsFromUser example_lib ?w ''pub-01'' ''alice'')))"
    by (simp add: run_defs)
  note t = credit_is_truncated_sum [OF h s]
  have b: "0 \<le> sint (500 :: int64) \<and> sint (500 :: int64) < 1000"
    by simp
  have zero: "GetZapsTotalFromUser example_lib ?w ''pub-01'' ''alice'' = Inr 0"
    using t b by blast
  have g: "go_div 500 1000 = 0"
    by (simp add: go_div_def signed_divide_int_def)
  have p: "SubManyEose ?w' relays [zap_filter ''pub-01'']
             = SubManyEose ?w relays [zap_filter ''pub-01''] @ [(''wss://nos.lol'', ?r)]
           \<and> kept example_lib ''alice'' ?r
           \<and> ID ?r \<notin> fst ` set (GetZapEventsFromUser example_lib ?w ''pub-01'' ''alice'')
           \<and> receipt_msat example_lib ?r = 3000
           \<and> 0 \<le> sint (500 :: int64) \<and> sint (500 :: int64) < 2 ^ 63 - 3000"
    by (simp add: run_defs kept_def)
  have "GetZapsTotalFromUser example_lib ?w' ''pub-01'' ''alice'' = Inr (go_div 500 1000 + 3)"
    using t p by blast
  then have three: "GetZapsTotalFromUser example_lib ?w' ''pub-01'' ''alice'' = Inr 3"
    by (simp only: g) simp
  from zero three show ?thesis
    by (simp only: simp_thms)
qed

text \<open>
  The claim as stated fails: one receipt of 500 millisatoshi gives credit 0, a second one
  of 500 brings the credit to 1, where one division per receipt gives 0.
\<close>

theorem per_receipt_division_counterexample:
  "GetZapsTotalFromUser example_lib (example_world [zap ''z1'' ''invoice 500''] (Inr 0))
      ''pub-01'' ''alice'' = Inr 0
   \<and> GetZapsTotalFromUser example_lib
        (example_world [zap ''z1'' ''invoice 500'', zap ''z2'' ''invoice 500''] (Inr 0))
        ''pub-01'' ''alice'' = Inr 1
   \<and> per_receipt_credit example_lib (map snd (GetZapEventsFromUser example_lib
        (example_world [zap ''z1'' ''invoice 500'', zap ''z2'' ''invoice 500''] (Inr 0))
        ''pub-01'' ''alice'')) = 0"
  by (simp add: run_defs)




text \<open>
  C4, as amended. The bot keeps no record of the queries it answered: it replies to a
  delivered query exactly when the lookup of \<^verbatim>\<open>BotCommandFulfilled\<close> finds nothing and the
  content matches. So a reply found upstream always suppresses a new one, and at most one
  reply to a query reaches a relay as long as the lookups made after that reply find it.
\<close>

theorem one_reply_while_upstream_reflects:
  assumes "upstream_reflects l b [] steps"
  shows "length (replies_to q (fst (HandleBotCommands l b steps))) \<le> 1
       \<and> (\<forall>w ev. BotCommandFulfilled w b (ID ev) \<longrightarrow> bot_step l b w ev = Inr None)"
  using replies_bounded [OF assms, of q] by (simp add: bot_step_fulfilled)

text \<open>
  The query is delivered twice; the reply to the first delivery reaches a relay and the
  lookup at the second delivery finds it: one reply.
\<close>

theorem one_reply_while_upstream_reflects_witness:
  "upstream_reflects example_lib ''pub-01'' []
     [(world_reaching [''wss://nos.lol''], ''wss://nos.lol'', text_note ''q1'' ''alice'' ''balance''),
      (world_with_reply ''q1'', ''wss://nostr.mom'', text_note ''q1'' ''alice'' ''balance'')]
   \<and> length (replies_to ''q1'' (fst (HandleBotCommands example_lib ''pub-01''
     [(world_reaching [''wss://nos.lol''], ''wss://nos.lol'', text_note ''q1'' ''alice'' ''balance''),
      (world_with_reply ''q1'', ''wss://nostr.mom'', text_note ''q1'' ''alice'' ''balance'')])))
     \<le> 1
   \<and> map published_to (replies_to ''q1'' (fst (HandleBotCommands example_lib ''pub-01''
     [(world_reaching [''wss://nos.lol''], ''wss://nos.lol'', text_note ''q1'' ''alice'' ''balance''),
      (world_with_reply ''q1'', ''wss://nostr.mom'', text_note ''q1'' ''alice'' ''balance'')])))
     = [[''wss://nos.lol'']]"
proof -
  let ?ev = "text_note ''q1'' ''alice'' ''balance''"
  let ?steps = "[(world_reaching [''wss://nos.lol''], ''wss://nos.lol'', ?ev),
      (world_with_reply ''q1'', ''wss://nostr.mom'', ?ev)]"
  have m: "MatchString balance_pattern ''balance''"
    by code_simp
  have f: "BotCommandFulfilled (world_with_reply ''q1'') ''pub-01'' ''q1''"
    by (simp add: BotCommandFulfilled_def world_with_reply_def example_world_def)
  have h: "upstream_reflects example_lib ''pub-01'' [] ?steps"
    using f by (simp add: text_note_def)
  have z: "decimal 0 = ''0''"
    by code_simp
  have r: "map published_to (replies_to ''q1'' (fst (HandleBotCommands example_lib ''pub-01'' ?steps)))
         = [[''wss://nos.lol'']]"
    using m z by (simp add: bot_defs run_defs reply_defs)
  from one_reply_while_upstream_reflects [OF h, of "''q1''"] h r show ?thesis
    by (simp only: simp_thms)
qed

text \<open>
  The claim as stated fails: the reply to the first delivery reaches one relay only, that
  relay cannot be reached at the second delivery, the lookup finds nothing, and a second
  reply to the same query is published to another relay.
\<close>

theorem second_reply_counterexample:
  "map published_to (replies_to ''q1'' (fst (HandleBotCommands example_lib ''pub-01''
     [(world_reaching [''wss://nos.lol''], ''wss://nos.lol'', text_note ''q1'' ''alice'' ''balance''),
      (world_reaching [''wss://nostr.mom''], ''wss://nostr.mom'', text_note ''q1'' ''alice'' ''balance'')])))
   = [[''wss://nos.lol''], [''wss://nostr.mom'']]"
proof -
  have m: "MatchString balance_pattern ''balance''"
    by code_simp
  have z: "decimal 0 = ''0''"
    by code_simp
  show ?thesis
    using m z by (simp add: bot_defs run_defs reply_defs)
qed

text \<open>
  C5. A receipt whose invoice tag has fewer than two elements is not skipped without
  harm: \<^verbatim>\<open>ValueFromTag\<close> reads \<^verbatim>\<open>tag[1]\<close> with no length check (the loop of
  \<^verbatim>\<open>GetZapRequestFromZapEvent\<close> has the check \<^verbatim>\<open>len(tag) > 1\<close>), so the receipt with the tags
  \<open>[["p", ...], ["description", ...], ["bolt11"]]\<close> makes the aggregation and the admission hook
  panic, while a description tag of one element is skipped.
\<close>

theorem short_bolt11_tag_panics:
  "GetZapsTotalFromUser example_lib
     (example_world [(''wss://nos.lol'',
        receipt ''z1'' [[''p'', ''pub-01''], [''description'', ''request of alice''],
          [''bolt11'']])] (Inr 0))
     ''pub-01'' ''alice'' = Inl Panic
   \<and> RejectEvent_hook example_lib
     (example_world [(''wss://nos.lol'',
        receipt ''z1'' [[''p'', ''pub-01''], [''description'', ''request of alice''],
          [''bolt11'']])] (Inr 0))
     ''pub-01'' (text_note ''n1'' ''alice'' ''hello'') = Inl Panic
   \<and> GetZapRequestFromZapEvent example_lib (receipt ''z2'' [[''description'']])
     = Inl ''description tag not found''"
  by (simp add: run_defs RejectEvent_hook_def)

text \<open>
  C6. The reply is built with the author \<^verbatim>\<open>botPubkey\<close>, derived from the environment variable
  \<^verbatim>\<open>BOT_PRIVATE_KEY\<close>, and signed with the key of another variable, \<^verbatim>\<open>GM_BOT_PRIVATE_KEY\<close>:
  where the two keys differ (here \<open>01\<close> and \<open>02\<close>), the identity that signs the reply is not
  \<^verbatim>\<open>botPubkey\<close>, the author the program wrote into it.
\<close>

theorem reply_signed_with_other_key:
  "main_botPubkey example_lib (example_world [] (Inr 0)) = Inr ''pub-01''
   \<and> map_sum id (signer example_lib \<circ> reply)
        (PublishCommandResponseEvent (example_world [] (Inr 0)) ''pub-01''
           (text_note ''q1'' ''alice'' ''balance'') ''Your balance is 0 sats.'') = Inr ''pub-02''
   \<and> map_sum id (secret \<circ> reply)
        (PublishCommandResponseEvent (example_world [] (Inr 0)) ''pub-01''
           (text_note ''q1'' ''alice'' ''balance'') ''Your balance is 0 sats.'') = Inr ''02''
   \<and> map_sum id (PubKey \<circ> unsigned \<circ> reply)
        (PublishCommandResponseEvent (example_world [] (Inr 0)) ''pub-01''
           (text_note ''q1'' ''alice'' ''balance'') ''Your balance is 0 sats.'') = Inr ''pub-01''"
  by (simp add: main_botPubkey_def PublishCommandResponseEvent_def GetEnv_def signer_def example_defs)

text \<open>
  C7, as amended. As long as no receipt of the payer makes \<^verbatim>\<open>ValueFromTag\<close> panic, no
  decoded amount is negative and the amounts add up to less than \<open>2^63\<close>,
  \<^verbatim>\<open>GetZapsTotalFromUser\<close> returns a credit that is not negative, and the credit is 0 when no
  receipt carries an amount.
\<close>

theorem credit_nonnegative_without_overflow:
  assumes "\<forall>e \<in> set (map snd (GetZapEventsFromUser l w b p)).
              \<not> receipt_panics e \<and> 0 \<le> sint (receipt_msat l e)"
    and "(\<Sum>e\<leftarrow>map snd (GetZapEventsFromUser l w b p). sint (receipt_msat l e)) < 2 ^ 63"
  shows "\<exists>C. GetZapsTotalFromUser l w b p = Inr C \<and> 0 \<le> sint C
           \<and> ((\<forall>e \<in> set (map snd (GetZapEventsFromUser l w b p)). receipt_msat l e = 0) \<longrightarrow> C = 0)"
proof -
  let ?es = "map snd (GetZapEventsFromUser l w b p)"
  let ?S = "sum_list (map (receipt_msat l) ?es)"
  have r: "GetZapsTotalFromUser l w b p = Inr (go_div ?S 1000)"
    using assms(1) by (simp add: GetZapsTotalFromUser_eq)
  have "sint ?S = (\<Sum>e\<leftarrow>?es. sint (receipt_msat l e))"
    using assms by (intro sint_sum_list_nonneg) auto
  moreover have "0 \<le> (\<Sum>e\<leftarrow>?es. sint (receipt_msat l e))"
    using assms(1) by (auto intro!: sum_list_nonneg)
  ultimately have "0 \<le> sint ?S"
    by simp
  then have nn: "0 \<le> sint (go_div ?S 1000)"
    by (simp add: sint_go_div_1000 sdiv_1000_bounds(1))
  have z: "(\<forall>e \<in> set ?es. receipt_msat l e = 0) \<longrightarrow> go_div ?S 1000 = 0"
  proof
    assume "\<forall>e \<in> set ?es. receipt_msat l e = 0"
    then have "?S = 0"
      by (rule sum_list_all_zero)
    then show "go_div ?S 1000 = 0"
      by (simp add: go_div_def)
  qed
  from r nn z show ?thesis
    by blast
qed

text \<open>Scenario A of the specification: receipts worth 2 and 5 units, credit 7.\<close>

theorem credit_nonnegative_without_overflow_witness:
  "GetZapsTotalFromUser example_lib
     (example_world [zap ''z1'' ''invoice 2000'', zap ''z2'' ''invoice 5000''] (Inr 0))
     ''pub-01'' ''alice'' = Inr 7
   \<and> (\<exists>C. GetZapsTotalFromUser example_lib
     (example_world [zap ''z1'' ''invoice 2000'', zap ''z2'' ''invoice 5000''] (Inr 0))
     ''pub-01'' ''alice'' = Inr C \<and> 0 \<le> sint C)"
proof -
  let ?w = "example_world [zap ''z1'' ''invoice 2000'', zap ''z2'' ''invoice 5000''] (Inr 0)"
  have h1: "\<forall>e \<in> set (map snd (GetZapEventsFromUser example_lib ?w ''pub-01'' ''alice'')).
              \<not> receipt_panics e \<and> 0 \<le> sint (receipt_msat example_lib e)"
    by (simp add: run_defs)
  have h2: "(\<Sum>e\<leftarrow>map snd (GetZapEventsFromUser example_lib ?w ''pub-01'' ''alice'').
              sint (receipt_msat example_lib e)) < 2 ^ 63"
    by (simp add: run_defs)
  have v: "GetZapsTotalFromUser example_lib ?w ''pub-01'' ''alice'' = Inr 7"
    by (simp add: run_defs)
  from credit_nonnegative_without_overflow [OF h1 h2] v show ?thesis
    by blast
qed

text \<open>
  The claim as stated fails: two receipts of \<open>2^62\<close> millisatoshi each add up to \<open>2^63\<close>,
  the int64 total wraps around to \<open>- 2^63\<close>, and the credit is negative.
\<close>

theorem credit_negative_counterexample:
  "map_sum id sint (GetZapsTotalFromUser example_lib
      (example_world [zap ''z1'' ''invoice 2^62'', zap ''z2'' ''invoice 2^62''] (Inr 0))
      ''pub-01'' ''alice'') = Inr (- 9223372036854775)"
  by (simp add: run_defs)

text \<open>
  C8. The command pattern matches a content if and only if the word "balance" occurs in it
  as a whole word, in any mix of cases; "what is my balance?" matches and "balanced diet"
  does not.
\<close>

theorem balance_pattern_matches_whole_word:
  "(MatchString balance_pattern content \<longleftrightarrow> whole_word_balance content)
   \<and> MatchString balance_pattern ''what is my balance?''
   \<and> \<not> MatchString balance_pattern ''balanced diet''"
proof -
  have c: "''balance'' \<noteq> []" "is_word_char (hd ''balance'')" "is_word_char (last ''balance'')"
    by (simp_all add: is_word_char_def)
  have "MatchString balance_pattern content \<longleftrightarrow> whole_word_balance content"
    unfolding balance_pattern_def whole_word_balance_def
    by (simp only: MatchString_word [OF c] fold_case_balance)
  moreover have "MatchString balance_pattern ''what is my balance?''"
    by code_simp
  moreover have "\<not> MatchString balance_pattern ''balanced diet''"
    by code_simp
  ultimately show ?thesis
    by (simp only: simp_thms)
qed

theorem balance_pattern_matches_whole_word_witness:
  "whole_word_balance ''My BALANCE, please'' \<and> \<not> whole_word_balance ''balance_sheet''"
proof -
  have "MatchString balance_pattern ''My BALANCE, please''"
    by code_simp
  moreover have "\<not> MatchString balance_pattern ''balance_sheet''"
    by code_simp
  ultimately show ?thesis
    using balance_pattern_matches_whole_word [of "''My BALANCE, please''"]
      balance_pattern_matches_whole_word [of "''balance_sheet''"]
    by (simp only: simp_thms)
qed

text \<open>
  C9. When the count query of the local store fails, \<^verbatim>\<open>GetStoredEventsCountFromUser\<close>
  ends the process with \<^verbatim>\<open>log.Fatalf\<close> and returns nothing: neither the balance query
  nor the admission hook gets a count or an error value back.
\<close>

theorem count_failure_is_fatal:
  assumes "CountEvents w \<lparr>Kinds = [], FTags = [], Authors = [PubKey ev]\<rparr> = Inl err"
  shows "GetStoredEventsCountFromUser w (PubKey ev) = Inl (Fatal (''Failed to query events: '' @ err))
       \<and> isl (GetRemainingUserBalance l w botPubkey (PubKey ev))
       \<and> isl (RejectEvent_hook l w botPubkey ev)"
  using assms
  by (simp add: GetStoredEventsCountFromUser_def GetRemainingUserBalance_def RejectEvent_hook_def
      split: sum.splits)

theorem count_failure_is_fatal_witness:
  "CountEvents (example_world [] (Inl ''database is locked''))
       \<lparr>Kinds = [], FTags = [], Authors = [PubKey (text_note ''n1'' ''alice'' ''hello'')]\<rparr>
     = Inl ''database is locked''
   \<and> GetStoredEventsCountFromUser (example_world [] (Inl ''database is locked'')) ''alice''
     = Inl (Fatal ''Failed to query events: database is locked'')
   \<and> isl (RejectEvent_hook example_lib (example_world [] (Inl ''database is locked'')) ''pub-01''
            (text_note ''n1'' ''alice'' ''hello''))"
proof -
  have h: "CountEvents (example_world [] (Inl ''database is locked''))
       \<lparr>Kinds = [], FTags = [], Authors = [PubKey (text_note ''n1'' ''alice'' ''hello'')]\<rparr>
     = Inl ''database is locked''"
    by (simp add: example_world_def)
  show ?thesis
    using h count_failure_is_fatal [OF h, of example_lib "''pub-01''"]
    by (simp add: text_note_def)
qed

text \<open>
  C10. When the stored count exceeds the credit, \<^verbatim>\<open>GetRemainingUserBalance\<close> returns credit
  minus count, a negative number (nothing clamps it at zero), and the reply of the bot
  carries that number with its minus sign. The difference is the one of the integers for
  every count below \<open>2^62\<close>.
\<close>

theorem negative_balance_reported_verbatim:
  assumes "GetZapsTotalFromUser l w b (PubKey ev) = Inr C"
    and "GetStoredEventsCountFromUser w (PubKey ev) = Inr U"
    and "sint C < sint U"
    and "sint U < 2 ^ 62"
  shows "GetRemainingUserBalance l w b (PubKey ev) = Inr (C - U)
       \<and> sint (C - U) = sint C - sint U \<and> sint (C - U) < 0
       \<and> balance_response (C - U) = ''Your balance is -'' @ decimal (nat (sint U - sint C)) @ '' sats.''
       \<and> bot_step l b w ev =
           (if BotCommandFulfilled w b (ID ev) \<or> \<not> MatchString balance_pattern (Content ev)
            then Inr None
            else map_sum id Some (PublishCommandResponseEvent w b ev
                   (''Your balance is -'' @ decimal (nat (sint U - sint C)) @ '' sats.'')))"
proof -
  have r: "GetRemainingUserBalance l w b (PubKey ev) = Inr (C - U)"
    using assms(1,2) by (simp add: GetRemainingUserBalance_def)
  have lo: "- (2 ^ 62) \<le> sint C"
    using assms(1) by (rule credit_lower_bound)
  have d: "sint (C - U) = sint C - sint U"
    using lo assms(3,4) by (simp add: sint_word_ariths signed_take_bit_int_eq_self)
  have n: "sint (C - U) < 0"
    using d assms(3) by simp
  have "- sint (C - U) = sint U - sint C"
    using d by simp
  then have f: "balance_response (C - U)
              = ''Your balance is -'' @ decimal (nat (sint U - sint C)) @ '' sats.''"
    using n by (simp add: balance_response_def FormatInt64_def)
  have s: "bot_step l b w ev =
           (if BotCommandFulfilled w b (ID ev) \<or> \<not> MatchString balance_pattern (Content ev)
            then Inr None
            else map_sum id Some (PublishCommandResponseEvent w b ev (balance_response (C - U))))"
    by (simp add: bot_step_def r split: sum.splits)
  from r d n f s show ?thesis
    by (simp only:)
qed

text \<open>Credit 1 and three stored events: the bot answers "Your balance is -2 sats.".\<close>

theorem negative_balance_reported_verbatim_witness:
  "GetRemainingUserBalance example_lib (example_world [zap ''z1'' ''invoice 1000''] (Inr 3)) ''pub-01''
      ''alice'' = Inr (- 2)
   \<and> bot_step example_lib ''pub-01'' (example_world [zap ''z1'' ''invoice 1000''] (Inr 3))
        (text_note ''q1'' ''alice'' ''what is my balance?'')
      = Inr (Some \<lparr>reply = Signed ''02''
           \<lparr>ID = '''', PubKey = ''pub-01'', CreatedAt = 0, Kind = 1,
             Tags = [[''e'', ''q1''], [''p'', ''alice'']],
             Content = ''Your balance is -2 sats.'', Sig = ''''\<rparr>,
          published_to = relays\<rparr>)"
proof -
  let ?w = "example_world [zap ''z1'' ''invoice 1000''] (Inr 3)"
  let ?ev = "text_note ''q1'' ''alice'' ''what is my balance?''"
  have c: "GetZapsTotalFromUser example_lib ?w ''pub-01'' (PubKey ?ev) = Inr 1"
    by (simp add: run_defs)
  have u: "GetStoredEventsCountFromUser ?w (PubKey ?ev) = Inr 3"
    by (simp add: GetStoredEventsCountFromUser_def example_defs)
  have lt: "sint (1 :: int64) < sint (3 :: int64)"
    by simp
  have b: "sint (3 :: int64) < 2 ^ 62"
    by simp
  have m: "MatchString balance_pattern (Content ?ev)"
    unfolding text_note_def by code_simp
  have nf: "\<not> BotCommandFulfilled ?w ''pub-01'' (ID ?ev)"
    by (simp add: bot_defs example_defs)
  have dec: "decimal (nat (sint (3 :: int64) - sint (1 :: int64))) = ''2''"
    by code_simp
  have pub: "PublishCommandResponseEvent ?w ''pub-01'' ?ev ''Your balance is -2 sats.''
      = Inr \<lparr>reply = Signed ''02''
           \<lparr>ID = '''', PubKey = ''pub-01'', CreatedAt = 0, Kind = 1,
             Tags = [[''e'', ''q1''], [''p'', ''alice'']],
             Content = ''Your balance is -2 sats.'', Sig = ''''\<rparr>,
          published_to = relays\<rparr>"
    by (simp add: bot_defs example_defs)
  from negative_balance_reported_verbatim [OF c u lt b] m nf dec pub show ?thesis
    by (simp add: text_note_def)
qed

end
